theory Spec2Isabelle
  imports Main "HOL-Library.Multiset"
begin

section \<open>The tournament database\<close>

text \<open>
  \<^verbatim>\<open>tournament.py\<close> keeps no state of its own: every function opens a connection to
  the PostgreSQL database \<^verbatim>\<open>tournament\<close>, runs one statement and closes the connection.
  The state is the content of the two tables, \<^verbatim>\<open>players\<close> and \<^verbatim>\<open>matches\<close>, and the
  counter behind the serial \<^verbatim>\<open>id\<close> column (``The database assigns a unique serial id
  number for the player'', docstring of \<^verbatim>\<open>registerPlayer\<close>). Rows are kept in insertion
  order. A failure to reach the database is not part of the model.
\<close>

type_synonym player = "int \<times> string"
  \<comment> \<open>a row of \<^verbatim>\<open>players\<close>: (id, name)\<close>

type_synonym match = "int \<times> int"
  \<comment> \<open>a row of \<^verbatim>\<open>matches\<close>: (winner_id, loser_id)\<close>

type_synonym standings_row = "int \<times> string \<times> int \<times> int"
  \<comment> \<open>the tuple (id, name, wins, matches) of the docstring of \<^verbatim>\<open>playerStandings\<close>\<close>

type_synonym pairing = "int \<times> string \<times> int \<times> string"
  \<comment> \<open>the tuple (id1, name1, id2, name2) of the docstring of \<^verbatim>\<open>swissPairings\<close>\<close>

record db =
  players :: "player list"
  matches :: "match list"
  next_id :: int

text \<open>
  \<^verbatim>\<open>IndexError\<close> is Python's, raised by a list read out of range. \<^verbatim>\<open>IntegrityError\<close>
  is the database's answer to a row that breaks a reference. \<^verbatim>\<open>InvalidRosterError\<close>
  is the name the specification gives to the failure of a pairing request on an odd
  roster; no statement of \<^verbatim>\<open>tournament.py\<close> raises it.
\<close>

datatype py_error = IndexError | IntegrityError | InvalidRosterError

text \<open>Tuple components, as the code reads them: \<^verbatim>\<open>player1[0]\<close>, \<^verbatim>\<open>player1[1]\<close>, ...\<close>

definition row_id :: "standings_row \<Rightarrow> int" where
  "row_id r = fst r"

definition row_name :: "standings_row \<Rightarrow> string" where
  "row_name r = fst (snd r)"

definition row_wins :: "standings_row \<Rightarrow> int" where
  "row_wins r = fst (snd (snd r))"

definition row_matches :: "standings_row \<Rightarrow> int" where
  "row_matches r = snd (snd (snd r))"

definition well_formed :: "db \<Rightarrow> bool" where
  \<comment> \<open>what the schema keeps true of the tables: ids are unique and below the serial
      counter, and both columns of a match refer to a registered player\<close>
  "well_formed d \<longleftrightarrow>
     distinct (map fst (players d)) \<and>
     list_all (\<lambda>p. fst p < next_id d) (players d) \<and>
     list_all (\<lambda>m. fst m \<in> set (map fst (players d)) \<and> snd m \<in> set (map fst (players d)))
       (matches d)"

definition empty_db :: db where
  "empty_db = \<lparr>players = [], matches = [], next_id = 1\<rparr>"

subsection \<open>Statements that change the tables\<close>

text \<open>\<^verbatim>\<open>delete from matches;\<close>\<close>

definition deleteMatches :: "db \<Rightarrow> db" where
  "deleteMatches d = d\<lparr>matches := []\<rparr>"

text \<open>\<^verbatim>\<open>select count(id) from players;\<close> and \<^verbatim>\<open>fetchone()[0]\<close>\<close>

definition countPlayers :: "db \<Rightarrow> int" where
  "countPlayers d = int (length (players d))"

text \<open>
  \<^verbatim>\<open>name = bleach.clean(name)\<close>, then \<^verbatim>\<open>insert into players (name) values (%s);\<close>.
  \<^verbatim>\<open>bleach\<close> is a library outside the repository: its \<^verbatim>\<open>clean\<close> is the parameter
  \<open>clean\<close>. The new row takes the next value of the serial counter.
\<close>

definition registerPlayer :: "(string \<Rightarrow> string) \<Rightarrow> string \<Rightarrow> db \<Rightarrow> db" where
  "registerPlayer clean name d =
     (let name' = clean name
      in d\<lparr>players := players d @ [(next_id d, name')], next_id := next_id d + 1\<rparr>)"

text \<open>
  \<^verbatim>\<open>insert into matches (winner_id, loser_id) values (%s, %s);\<close>

  Modelled from the spec: the schema of the table \<^verbatim>\<open>matches\<close> (tournament.sql is not
  among the sources). The specification makes both columns references to a player and
  has the store refuse a match for a player id that does not exist.
\<close>

definition reportMatch :: "int \<Rightarrow> int \<Rightarrow> db \<Rightarrow> py_error + db" where
  "reportMatch winner loser d =
     (if winner \<in> set (map fst (players d)) \<and> loser \<in> set (map fst (players d))
      then Inr (d\<lparr>matches := matches d @ [(winner, loser)]\<rparr>)
      else Inl IntegrityError)"

subsection \<open>The view \<^verbatim>\<open>standings\<close>\<close>

definition wins_of :: "match list \<Rightarrow> int \<Rightarrow> int" where
  "wins_of ms i = int (length (filter (\<lambda>m. fst m = i) ms))"

definition matches_of :: "match list \<Rightarrow> int \<Rightarrow> int" where
  "matches_of ms i = int (length (filter (\<lambda>m. fst m = i \<or> snd m = i) ms))"

text \<open>
  \<^verbatim>\<open>order by wins desc\<close>. SQL leaves the order among rows with equal wins to the
  database; here such rows keep the order they come in. That is one of the orders the
  database may return, so the position of a player among those with the same wins is a
  fact of this model only, and so is every list that shows it.
\<close>

definition order_by_wins_desc :: "standings_row list \<Rightarrow> standings_row list" where
  "order_by_wins_desc rows = sort_key (\<lambda>r. - row_wins r) rows"

text \<open>
  Modelled from the spec: the view \<^verbatim>\<open>standings\<close> (tournament.sql is not among the
  sources). One row per player, with wins the number of matches where the player is the
  winner and matches the number of matches the player played, as winner or loser; the
  rows are ranked by descending wins. The specification leaves the order of players
  with equal wins to the implementation; here they stay in insertion order.
\<close>

definition standings_rows :: "db \<Rightarrow> standings_row list" where
  \<comment> \<open>the rows before they are ranked, one per player, in the order of the table\<close>
  "standings_rows d =
     map (\<lambda>p. (fst p, snd p, wins_of (matches d) (fst p), matches_of (matches d) (fst p)))
       (players d)"

definition standings :: "db \<Rightarrow> standings_row list" where
  "standings d = order_by_wins_desc (standings_rows d)"

subsection \<open>Queries\<close>

text \<open>\<^verbatim>\<open>select * from standings;\<close> and \<^verbatim>\<open>fetchall()\<close>\<close>

definition playerStandings :: "db \<Rightarrow> standings_row list" where
  "playerStandings d = standings d"

text \<open>
  The loop of \<^verbatim>\<open>swissPairings\<close>:
  \<^verbatim>\<open>
  result = []
  for counter in range(0, len(standings), 2):
      player1 = standings[counter]
      player2 = standings[counter + 1]
      result.append((player1[0], player1[1], player2[0], player2[1]))
  return result
  \<close>
  \<^verbatim>\<open>range\<close> yields \<open>counter\<close> while it is below the length, so the first read is in
  range; the second one raises \<^verbatim>\<open>IndexError\<close> when \<open>counter + 1\<close> is the length.
\<close>

definition make_pairing :: "standings_row \<Rightarrow> standings_row \<Rightarrow> pairing" where
  "make_pairing player1 player2 = (row_id player1, row_name player1, row_id player2, row_name player2)"

function swiss_loop :: "standings_row list \<Rightarrow> nat \<Rightarrow> pairing list \<Rightarrow> py_error + pairing list" where
  "swiss_loop rows counter result =
     (if counter < length rows then
        (if counter + 1 < length rows then
           swiss_loop rows (counter + 2)
             (result @ [make_pairing (rows ! counter) (rows ! (counter + 1))])
         else Inl IndexError)
      else Inr result)"
  by pat_completeness auto
termination
  by (relation "measure (\<lambda>(rows, counter, result). length rows - counter)") auto

declare swiss_loop.simps [simp del]

text \<open>
  \<^verbatim>\<open>select id, name, wins, matches from standings order by wins desc;\<close>, \<^verbatim>\<open>fetchall()\<close>
  and the loop.
\<close>

definition swissPairings :: "db \<Rightarrow> py_error + pairing list" where
  "swissPairings d = swiss_loop (order_by_wins_desc (standings d)) 0 []"

text \<open>The player ids of a list of pairings, in the order they are listed.\<close>

definition pairing_id1 :: "pairing \<Rightarrow> int" where
  "pairing_id1 p = fst p"

definition pairing_id2 :: "pairing \<Rightarrow> int" where
  "pairing_id2 p = fst (snd (snd p))"

definition pairing_ids :: "pairing list \<Rightarrow> int list" where
  "pairing_ids ps = concat (map (\<lambda>p. [pairing_id1 p, pairing_id2 p]) ps)"

text \<open>
  The partition of a ranked sequence into consecutive groups of two, as the
  specification words it: (rank 1, rank 2), (rank 3, rank 4), and so on.
\<close>

fun adjacent_pairs :: "standings_row list \<Rightarrow> pairing list" where
  "adjacent_pairs (a # b # rows) = make_pairing a b # adjacent_pairs rows"
| "adjacent_pairs rows = []"

subsection \<open>Scenarios\<close>

text \<open>
  Database states to evaluate the functions on. Scenarios B and C are the
  specification's. Scenario B: four players, player 1 has beaten player 2 and player 3
  has beaten player 4. Scenario C: one player and no match. In the third state player 2
  has beaten player 1 and player 3 has not played.
\<close>

definition scenario_B :: db where
  "scenario_B = \<lparr>players = [(1, ''A''), (2, ''B''), (3, ''C''), (4, ''D'')],
                  matches = [(1, 2), (3, 4)], next_id = 5\<rparr>"

definition scenario_C :: db where
  "scenario_C = \<lparr>players = [(1, ''A'')], matches = [], next_id = 2\<rparr>"

definition scenario_idle :: db where
  "scenario_idle = \<lparr>players = [(1, ''A''), (2, ''B''), (3, ''C'')],
                     matches = [(2, 1)], next_id = 4\<rparr>"

section \<open>The loop\<close>

lemma swiss_loop_drop:
  "counter \<le> length rows \<Longrightarrow>
   swiss_loop rows counter result =
     (if even (length rows - counter) then Inr (result @ adjacent_pairs (drop counter rows))
      else Inl IndexError)"
proof (induction rows counter result rule: swiss_loop.induct)
  case (1 rows counter result)
  show ?case
  proof (cases "counter < length rows")
    case False
    with "1.prems" show ?thesis
      by (simp add: swiss_loop.simps)
  next
    case in_range: True
    show ?thesis
    proof (cases "counter + 1 < length rows")
      case False
      with in_range have "length rows - counter = 1"
        by simp
      with in_range False show ?thesis
        by (simp add: swiss_loop.simps)
    next
      case True
      have d: "drop counter rows =
                 rows ! counter # rows ! (counter + 1) # drop (counter + 2) rows"
        using True by (simp add: Cons_nth_drop_Suc)
      have e: "even (length rows - (counter + 2)) = even (length rows - counter)"
        using True by presburger
      have "swiss_loop rows counter result =
              swiss_loop rows (counter + 2)
                (result @ [make_pairing (rows ! counter) (rows ! (counter + 1))])"
        using in_range True by (subst swiss_loop.simps) simp
      also have "\<dots> =
          (if even (length rows - (counter + 2))
           then Inr ((result @ [make_pairing (rows ! counter) (rows ! (counter + 1))])
                       @ adjacent_pairs (drop (counter + 2) rows))
           else Inl IndexError)"
        using "1.IH" [OF in_range True] True by simp
      finally have "swiss_loop rows counter result =
          (if even (length rows - counter)
           then Inr ((result @ [make_pairing (rows ! counter) (rows ! (counter + 1))])
                       @ adjacent_pairs (drop (counter + 2) rows))
           else Inl IndexError)"
        unfolding e .
      then show ?thesis
        unfolding d by simp
    qed
  qed
qed

section \<open>Pairs of adjacent rows, and the ranking\<close>

lemma length_adjacent_pairs: "length (adjacent_pairs rows) = length rows div 2"
  by (induction rows rule: adjacent_pairs.induct) simp_all

lemma pairing_ids_adjacent_pairs:
  "even (length rows) \<Longrightarrow> pairing_ids (adjacent_pairs rows) = map row_id rows"
  by (induction rows rule: adjacent_pairs.induct)
     (simp_all add: pairing_ids_def pairing_id1_def pairing_id2_def make_pairing_def)

lemma nth_adjacent_pairs:
  "k < length rows div 2 \<Longrightarrow>
   adjacent_pairs rows ! k = make_pairing (rows ! (2 * k)) (rows ! (2 * k + 1))"
proof (induction rows arbitrary: k rule: adjacent_pairs.induct)
  case (1 a b rows)
  then show ?case
    by (cases k) simp_all
qed simp_all

lemma length_order_by_wins_desc: "length (order_by_wins_desc rows) = length rows"
  by (simp add: order_by_wins_desc_def)

lemma mset_order_by_wins_desc: "mset (order_by_wins_desc rows) = mset rows"
  by (simp add: order_by_wins_desc_def)

lemma descending_order_by_wins_desc:
  "sorted_wrt (\<lambda>a b. row_wins b \<le> row_wins a) (order_by_wins_desc rows)"
proof -
  have "sorted (map (\<lambda>r. - row_wins r) (order_by_wins_desc rows))"
    unfolding order_by_wins_desc_def by (rule sorted_sort_key)
  then show ?thesis
    by (simp add: sorted_map)
qed

lemma order_by_wins_desc_idem:
  "order_by_wins_desc (order_by_wins_desc rows) = order_by_wins_desc rows"
  unfolding order_by_wins_desc_def
  by (rule sort_key_id_if_sorted) (rule sorted_sort_key)

lemma length_standings: "length (standings d) = length (players d)"
  by (simp add: standings_def standings_rows_def length_order_by_wins_desc)

lemma swissPairings_loop: "swissPairings d = swiss_loop (standings d) 0 []"
  by (simp add: swissPairings_def standings_def order_by_wins_desc_idem)

lemma swissPairings_cases:
  "swissPairings d =
     (if even (length (players d)) then Inr (adjacent_pairs (standings d)) else Inl IndexError)"
  by (simp add: swissPairings_loop swiss_loop_drop length_standings)

lemma map_row_id_standings_rows: "map row_id (standings_rows d) = map fst (players d)"
  by (simp add: standings_rows_def row_id_def)

lemma mset_ids_standings: "mset (map row_id (standings d)) = mset (map fst (players d))"
proof -
  have "mset (map row_id (standings d)) = image_mset row_id (mset (standings_rows d))"
    by (simp add: standings_def mset_order_by_wins_desc)
  also have "\<dots> = mset (map row_id (standings_rows d))"
    by simp
  finally show ?thesis
    by (simp only: map_row_id_standings_rows)
qed

lemma one_pairing_of_id:
  "distinct (pairing_ids ps) \<Longrightarrow> i \<in> set (pairing_ids ps) \<Longrightarrow>
   length (filter (\<lambda>p. pairing_id1 p = i \<or> pairing_id2 p = i) ps) = 1"
proof (induction ps)
  case Nil
  then show ?case by (simp add: pairing_ids_def)
next
  case (Cons p ps)
  have ids: "pairing_ids (p # ps) = pairing_id1 p # pairing_id2 p # pairing_ids ps"
    by (simp add: pairing_ids_def)
  have none: "j \<notin> set (pairing_ids ps) \<Longrightarrow>
      filter (\<lambda>p. pairing_id1 p = j \<or> pairing_id2 p = j) ps = []" for j
    by (auto simp: pairing_ids_def filter_empty_conv)
  show ?case
  proof (cases "pairing_id1 p = i \<or> pairing_id2 p = i")
    case True
    with Cons.prems ids have "i \<notin> set (pairing_ids ps)"
      by auto
    with True show ?thesis
      by (simp add: none)
  next
    case False
    with Cons.prems ids have "distinct (pairing_ids ps)" "i \<in> set (pairing_ids ps)"
      by auto
    with False Cons.IH show ?thesis
      by simp
  qed
qed

lemma distinct_ids_not_self:
  "distinct (pairing_ids ps) \<Longrightarrow> p \<in> set ps \<Longrightarrow> pairing_id1 p \<noteq> pairing_id2 p"
  by (induction ps) (auto simp: pairing_ids_def)

section \<open>The columns of the standings\<close>

lemma wins_of_le_matches_of: "wins_of ms i \<le> matches_of ms i"
  by (induction ms) (simp_all add: wins_of_def matches_of_def)

lemma wins_of_nonneg: "0 \<le> wins_of ms i"
  by (simp add: wins_of_def)

lemma set_standings: "set (standings d) = set (standings_rows d)"
  by (simp add: standings_def order_by_wins_desc_def)

lemma standings_rows_bounds:
  "r \<in> set (standings_rows d) \<Longrightarrow> 0 \<le> row_wins r \<and> row_wins r \<le> row_matches r"
  by (auto simp: standings_rows_def row_wins_def row_matches_def wins_of_nonneg
      wins_of_le_matches_of)

lemma idle_player_row:
  assumes "p \<in> set (players d)"
    and "\<forall>m \<in> set (matches d). fst m \<noteq> fst p \<and> snd m \<noteq> fst p"
  shows "(fst p, snd p, 0, 0) \<in> set (standings_rows d)"
proof -
  have w: "wins_of (matches d) (fst p) = 0"
    using assms(2) by (auto simp: wins_of_def filter_empty_conv)
  have m: "matches_of (matches d) (fst p) = 0"
    using assms(2) by (auto simp: matches_of_def filter_empty_conv)
  have "(fst p, snd p, wins_of (matches d) (fst p), matches_of (matches d) (fst p))
          \<in> set (standings_rows d)"
    using assms(1) by (auto simp: standings_rows_def)
  then show ?thesis
    by (simp add: w m)
qed

lemma mset_players_standings:
  "mset (map (\<lambda>r. (row_id r, row_name r)) (standings d)) = mset (players d)"
proof -
  have "mset (map (\<lambda>r. (row_id r, row_name r)) (standings d)) =
          mset (map (\<lambda>r. (row_id r, row_name r)) (standings_rows d))"
    by (simp add: standings_def mset_order_by_wins_desc)
  also have "map (\<lambda>r. (row_id r, row_name r)) (standings_rows d) = players d"
    by (simp add: standings_rows_def row_id_def row_name_def comp_def)
  finally show ?thesis .
qed

lemma sum_list_order_by_wins_desc:
  fixes f :: "standings_row \<Rightarrow> int"
  shows "sum_list (map f (order_by_wins_desc rows)) = sum_list (map f rows)"
proof -
  have "mset (map f (order_by_wins_desc rows)) = mset (map f rows)"
    by (simp add: mset_order_by_wins_desc)
  then have "sum_mset (mset (map f (order_by_wins_desc rows))) = sum_mset (mset (map f rows))"
    by (rule arg_cong)
  then show ?thesis
    by (simp only: sum_mset_sum_list)
qed

lemma wins_of_Cons:
  "wins_of (m # ms) i = (if fst m = i then 1 else 0) + wins_of ms i"
  by (simp add: wins_of_def)

lemma sum_indicator_distinct:
  "distinct ids \<Longrightarrow> w \<in> set ids \<Longrightarrow> (\<Sum>i\<leftarrow>ids. if w = i then 1 else 0) = (1::int)"
proof (induction ids)
  case Nil
  then show ?case by simp
next
  case (Cons a ids)
  show ?case
  proof (cases "w = a")
    case True
    with Cons.prems have "w \<notin> set ids"
      by simp
    then have "(\<Sum>i\<leftarrow>ids. if w = i then 1 else 0) = (0::int)"
      by (induction ids) auto
    with True show ?thesis
      by simp
  next
    case False
    with Cons show ?thesis
      by simp
  qed
qed

lemma sum_wins_of:
  "distinct ids \<Longrightarrow> set (map fst ms) \<subseteq> set ids \<Longrightarrow>
   (\<Sum>i\<leftarrow>ids. wins_of ms i) = int (length ms)"
proof (induction ms)
  case Nil
  then show ?case
    by (simp add: wins_of_def)
next
  case (Cons m ms)
  have "(\<Sum>i\<leftarrow>ids. wins_of (m # ms) i) =
          (\<Sum>i\<leftarrow>ids. if fst m = i then 1 else 0) + (\<Sum>i\<leftarrow>ids. wins_of ms i)"
    by (simp only: wins_of_Cons sum_list_addf)
  also have "(\<Sum>i\<leftarrow>ids. if fst m = i then 1 else 0) = (1::int)"
    using Cons.prems by (simp add: sum_indicator_distinct)
  also have "(\<Sum>i\<leftarrow>ids. wins_of ms i) = int (length ms)"
    using Cons by simp
  finally show ?case
    by simp
qed

lemma order_by_wins_desc_no_wins:
  "order_by_wins_desc (map (\<lambda>p. (fst p, snd p, 0, 0)) ps) = map (\<lambda>p. (fst p, snd p, 0, 0)) ps"
  unfolding order_by_wins_desc_def
proof (rule sort_key_id_if_sorted)
  show "sorted (map (\<lambda>r. - row_wins r) (map (\<lambda>p. (fst p, snd p, 0, 0)) ps))"
    by (induction ps) (simp_all add: row_wins_def)
qed

section \<open>What the schema keeps true\<close>

text \<open>
  The empty database is well formed, and registering a player, recording a match and
  deleting the matches keep it so.
\<close>

lemma well_formed_empty_db: "well_formed empty_db"
  by (simp add: well_formed_def empty_db_def)

lemma well_formed_registerPlayer:
  assumes "well_formed d"
  shows "well_formed (registerPlayer clean name d)"
proof -
  from assms have dist: "distinct (map fst (players d))"
    and below: "\<forall>p \<in> set (players d). fst p < next_id d"
    and refs: "\<forall>m \<in> set (matches d).
        fst m \<in> set (map fst (players d)) \<and> snd m \<in> set (map fst (players d))"
    by (simp_all add: well_formed_def list_all_iff)
  from below have fresh: "next_id d \<notin> set (map fst (players d))"
    by auto
  from below have below': "\<forall>p \<in> set (players d). fst p < next_id d + 1"
    by auto
  show ?thesis
    using dist fresh below' refs
    by (simp add: well_formed_def registerPlayer_def list_all_iff)
qed

lemma well_formed_reportMatch:
  assumes "well_formed d" and "reportMatch winner loser d = Inr d'"
  shows "well_formed d'"
proof -
  from assms(2) have ids: "winner \<in> set (map fst (players d))" "loser \<in> set (map fst (players d))"
    and d': "d' = d\<lparr>matches := matches d @ [(winner, loser)]\<rparr>"
    by (simp_all add: reportMatch_def split: if_splits)
  show ?thesis
    using assms(1) ids unfolding d'
    by (simp add: well_formed_def list_all_iff)
qed

lemma well_formed_deleteMatches: "well_formed d \<Longrightarrow> well_formed (deleteMatches d)"
  by (simp add: well_formed_def deleteMatches_def)

lemma well_formed_winners:
  "well_formed d \<Longrightarrow>
   distinct (map fst (players d)) \<and> set (map fst (matches d)) \<subseteq> set (map fst (players d))"
  by (auto simp: well_formed_def list_all_iff)

section \<open>The scenarios, evaluated\<close>

lemmas eval_defs =
  swissPairings_def standings_def standings_rows_def order_by_wins_desc_def
  playerStandings_def wins_of_def matches_of_def row_id_def row_name_def row_wins_def
  row_matches_def make_pairing_def swiss_loop.simps

lemma standings_scenario_B:
  "playerStandings scenario_B = [(1, ''A'', 1, 1), (3, ''C'', 1, 1), (2, ''B'', 0, 1), (4, ''D'', 0, 1)]"
  by (simp add: scenario_B_def eval_defs)

lemma swissPairings_scenario_B:
  "swissPairings scenario_B = Inr [(1, ''A'', 3, ''C''), (2, ''B'', 4, ''D'')]"
  by (simp add: scenario_B_def eval_defs)

lemma swissPairings_scenario_C:
  "swissPairings scenario_C = Inl IndexError"
  by (simp add: scenario_C_def eval_defs)

lemma standings_scenario_idle:
  "playerStandings scenario_idle = [(2, ''B'', 1, 1), (1, ''A'', 0, 1), (3, ''C'', 0, 0)]"
  by (simp add: scenario_idle_def eval_defs)

section \<open>Pairings\<close>

text \<open>
  C1. When the player ids are unique and the number of players is even, whatever the
  matches, \<^verbatim>\<open>swissPairings\<close> returns a list of half as many pairings as there are
  players; every player id is in exactly one pairing; and the two ids of a pairing are
  ids of players and differ.
\<close>

theorem swissPairings_even_covers_roster:
  assumes "distinct (map fst (players d))" and "even (length (players d))"
  shows "\<exists>ps. swissPairings d = Inr ps \<and>
           length ps = length (players d) div 2 \<and>
           (\<forall>i \<in> set (map fst (players d)).
              length (filter (\<lambda>p. pairing_id1 p = i \<or> pairing_id2 p = i) ps) = 1) \<and>
           (\<forall>p \<in> set ps. pairing_id1 p \<in> set (map fst (players d)) \<and>
                          pairing_id2 p \<in> set (map fst (players d)) \<and>
                          pairing_id1 p \<noteq> pairing_id2 p)"
proof -
  let ?ps = "adjacent_pairs (standings d)"
  have res: "swissPairings d = Inr ?ps"
    using assms(2) by (simp add: swissPairings_cases)
  have len: "length ?ps = length (players d) div 2"
    by (simp add: length_adjacent_pairs length_standings)
  have ids: "pairing_ids ?ps = map row_id (standings d)"
    using assms(2) by (simp add: pairing_ids_adjacent_pairs length_standings)
  have m: "mset (pairing_ids ?ps) = mset (map fst (players d))"
    by (simp only: ids mset_ids_standings)
  have dist: "distinct (pairing_ids ?ps)"
    using assms(1) mset_eq_imp_distinct_iff [OF m] by simp
  have set_eq: "set (pairing_ids ?ps) = set (map fst (players d))"
    using m by (rule mset_eq_setD)
  have once: "\<forall>i \<in> set (map fst (players d)).
      length (filter (\<lambda>p. pairing_id1 p = i \<or> pairing_id2 p = i) ?ps) = 1"
    using dist set_eq one_pairing_of_id by blast
  have mem: "pairing_id1 p \<in> set (pairing_ids ?ps) \<and> pairing_id2 p \<in> set (pairing_ids ?ps)"
    if "p \<in> set ?ps" for p
    using that by (auto simp: pairing_ids_def)
  have self: "\<forall>p \<in> set ?ps. pairing_id1 p \<in> set (map fst (players d)) \<and>
                          pairing_id2 p \<in> set (map fst (players d)) \<and>
                          pairing_id1 p \<noteq> pairing_id2 p"
    using mem set_eq distinct_ids_not_self [OF dist] by blast
  show ?thesis
    by (rule exI [of _ ?ps]) (intro conjI res len once self)
qed

text \<open>Scenario B: players 1 and 3, with one win each, are paired, and so are 2 and 4.\<close>

theorem swissPairings_even_covers_roster_witness:
  "distinct (map fst (players scenario_B)) \<and> even (length (players scenario_B)) \<and>
   swissPairings scenario_B = Inr [(1, ''A'', 3, ''C''), (2, ''B'', 4, ''D'')] \<and>
   (\<exists>ps. swissPairings scenario_B = Inr ps \<and> length ps = 2 \<and>
      length (filter (\<lambda>p. pairing_id1 p = 3 \<or> pairing_id2 p = 3) ps) = 1)"
proof -
  have h1: "distinct (map fst (players scenario_B))"
    by (simp add: scenario_B_def)
  have h2: "even (length (players scenario_B))"
    by (simp add: scenario_B_def)
  have three: "3 \<in> set (map fst (players scenario_B))"
    by (simp add: scenario_B_def)
  have two: "length (players scenario_B) div 2 = 2"
    by (simp add: scenario_B_def)
  from swissPairings_even_covers_roster [OF h1 h2]
  obtain ps where ps: "swissPairings scenario_B = Inr ps"
      "length ps = length (players scenario_B) div 2"
      "\<forall>i \<in> set (map fst (players scenario_B)).
          length (filter (\<lambda>p. pairing_id1 p = i \<or> pairing_id2 p = i) ps) = 1"
    by blast
  have "length (filter (\<lambda>p. pairing_id1 p = 3 \<or> pairing_id2 p = 3) ps) = 1"
    using ps(3) three by (rule bspec)
  with ps(1,2) two
  have "\<exists>ps. swissPairings scenario_B = Inr ps \<and> length ps = 2 \<and>
      length (filter (\<lambda>p. pairing_id1 p = 3 \<or> pairing_id2 p = 3) ps) = 1"
    by simp
  then show ?thesis
    by (intro conjI h1 h2 swissPairings_scenario_B)
qed

text \<open>
  C2, as the specification states it: on an odd roster \<^verbatim>\<open>swissPairings\<close> fails with
  \<^verbatim>\<open>InvalidRosterError\<close>. In scenario C (one player) the failure is the
  \<^verbatim>\<open>IndexError\<close> of the read \<^verbatim>\<open>standings[counter + 1]\<close>, not that error.
\<close>

theorem swissPairings_odd_not_InvalidRosterError:
  "swissPairings scenario_C = Inl IndexError \<and> swissPairings scenario_C \<noteq> Inl InvalidRosterError"
  by (simp add: scenario_C_def eval_defs)

text \<open>
  C2, amended. When the number of players is odd, \<^verbatim>\<open>swissPairings\<close> returns no list of
  pairings: it raises \<^verbatim>\<open>IndexError\<close>, at the read of the row after the last one, so no
  player is left out of a returned list silently.
\<close>

theorem swissPairings_odd_IndexError:
  assumes "odd (length (players d))"
  shows "swissPairings d = Inl IndexError"
  using assms by (simp add: swissPairings_cases)

theorem swissPairings_odd_IndexError_witness:
  "odd (length (players scenario_C)) \<and> swissPairings scenario_C = Inl IndexError"
proof -
  have h: "odd (length (players scenario_C))"
    by (simp add: scenario_C_def)
  from swissPairings_odd_IndexError [OF h] h show ?thesis
    by simp
qed

text \<open>
  C3. \<^verbatim>\<open>swissPairings\<close> runs its loop on the ranked standings, and on every sequence of
  even length the loop returns half as many pairings as there are rows, the pairing at
  position \<open>k\<close> (from 0) made of the rows at positions \<open>2k\<close> and \<open>2k + 1\<close>: ranks
  \<open>2k + 1\<close> and \<open>2k + 2\<close>, in the order of the ranking.
\<close>

theorem swissPairings_adjacent_ranks:
  assumes "even (length rows)"
  shows "swissPairings d = swiss_loop (playerStandings d) 0 [] \<and>
         (\<exists>ps. swiss_loop rows 0 [] = Inr ps \<and>
            length ps = length rows div 2 \<and>
            (\<forall>k < length ps. ps ! k = make_pairing (rows ! (2 * k)) (rows ! (2 * k + 1))))"
proof -
  have "swiss_loop rows 0 [] = Inr (adjacent_pairs rows)"
    using assms by (simp add: swiss_loop_drop)
  then show ?thesis
    by (simp add: swissPairings_loop playerStandings_def length_adjacent_pairs nth_adjacent_pairs)
qed

theorem swissPairings_adjacent_ranks_witness:
  "even (length (playerStandings scenario_B)) \<and>
   swissPairings scenario_B = swiss_loop (playerStandings scenario_B) 0 [] \<and>
   (\<exists>ps. swiss_loop (playerStandings scenario_B) 0 [] = Inr ps \<and> length ps = 2 \<and>
      ps ! 0 = (1, ''A'', 3, ''C'') \<and> ps ! 1 = (2, ''B'', 4, ''D''))"
proof -
  let ?rows = "playerStandings scenario_B"
  have h: "even (length ?rows)"
    by (simp add: standings_scenario_B)
  from swissPairings_adjacent_ranks [OF h, of scenario_B]
  obtain ps where loop: "swissPairings scenario_B = swiss_loop ?rows 0 []"
    and ps: "swiss_loop ?rows 0 [] = Inr ps" "length ps = length ?rows div 2"
    and nth: "\<forall>k < length ps. ps ! k = make_pairing (?rows ! (2 * k)) (?rows ! (2 * k + 1))"
    by blast
  have len: "length ps = 2"
    using ps(2) by (simp add: standings_scenario_B)
  have p0: "ps ! 0 = (1, ''A'', 3, ''C'')"
    using nth len by (simp add: standings_scenario_B make_pairing_def row_id_def row_name_def)
  have p1: "ps ! 1 = (2, ''B'', 4, ''D'')"
    using nth len by (simp add: standings_scenario_B make_pairing_def row_id_def row_name_def)
  have "\<exists>ps. swiss_loop ?rows 0 [] = Inr ps \<and> length ps = 2 \<and>
      ps ! 0 = (1, ''A'', 3, ''C'') \<and> ps ! 1 = (2, ''B'', 4, ''D'')"
    by (rule exI [of _ ps]) (intro conjI ps(1) len p0 p1)
  then show ?thesis
    by (intro conjI h loop)
qed

section \<open>Standings\<close>

text \<open>
  C4. \<^verbatim>\<open>playerStandings\<close> returns as many rows as there are players, the (id, name)
  columns of the rows are the players, each once, the rows are in descending order of
  wins, and a player who is in no match, as winner or loser, has the row
  (id, name, 0, 0).
\<close>

theorem playerStandings_ranked:
  "length (playerStandings d) = length (players d) \<and>
   mset (map (\<lambda>r. (row_id r, row_name r)) (playerStandings d)) = mset (players d) \<and>
   sorted_wrt (\<lambda>a b. row_wins b \<le> row_wins a) (playerStandings d) \<and>
   (\<forall>p \<in> set (players d).
      (\<forall>m \<in> set (matches d). fst m \<noteq> fst p \<and> snd m \<noteq> fst p) \<longrightarrow>
      (fst p, snd p, 0, 0) \<in> set (playerStandings d))"
proof (intro conjI ballI impI)
  show "length (playerStandings d) = length (players d)"
    by (simp add: playerStandings_def length_standings)
  show "mset (map (\<lambda>r. (row_id r, row_name r)) (playerStandings d)) = mset (players d)"
    unfolding playerStandings_def by (rule mset_players_standings)
  show "sorted_wrt (\<lambda>a b. row_wins b \<le> row_wins a) (playerStandings d)"
    by (simp add: playerStandings_def standings_def descending_order_by_wins_desc)
next
  fix p
  assume "p \<in> set (players d)"
    and "\<forall>m \<in> set (matches d). fst m \<noteq> fst p \<and> snd m \<noteq> fst p"
  then show "(fst p, snd p, 0, 0) \<in> set (playerStandings d)"
    by (simp add: playerStandings_def set_standings idle_player_row)
qed

text \<open>Player 3 has not played and closes the ranking with no win and no match.\<close>

theorem playerStandings_ranked_witness:
  "playerStandings scenario_idle = [(2, ''B'', 1, 1), (1, ''A'', 0, 1), (3, ''C'', 0, 0)] \<and>
   length (playerStandings scenario_idle) = length (players scenario_idle) \<and>
   (3, ''C'') \<in> set (players scenario_idle) \<and>
   (3, ''C'', 0, 0) \<in> set (playerStandings scenario_idle)"
proof -
  have p: "(3, ''C'') \<in> set (players scenario_idle)"
    by (simp add: scenario_idle_def)
  have idle: "\<forall>m \<in> set (matches scenario_idle). fst m \<noteq> fst (3::int, ''C'') \<and> snd m \<noteq> fst (3::int, ''C'')"
    by (simp add: scenario_idle_def)
  note t = playerStandings_ranked [of scenario_idle]
  from t have len: "length (playerStandings scenario_idle) = length (players scenario_idle)"
    by (rule conjunct1)
  note t [THEN conjunct2, THEN conjunct2, THEN conjunct2]
  from bspec [OF this p] idle
  have "(fst (3::int, ''C''), snd (3::int, ''C''), 0, 0) \<in> set (playerStandings scenario_idle)"
    by (rule mp)
  then have row: "(3, ''C'', 0, 0) \<in> set (playerStandings scenario_idle)"
    by simp
  show ?thesis
    by (intro conjI standings_scenario_idle len p row)
qed

text \<open>
  C5. With no player registered, \<^verbatim>\<open>playerStandings\<close> returns the empty list and
  \<^verbatim>\<open>swissPairings\<close> returns the empty list of pairings, not an error.
\<close>

theorem empty_roster:
  assumes "players d = []"
  shows "playerStandings d = [] \<and> swissPairings d = Inr []"
  using assms
  by (simp add: playerStandings_def swissPairings_def standings_def standings_rows_def
      order_by_wins_desc_def swiss_loop.simps)

theorem empty_roster_witness:
  "players empty_db = [] \<and> playerStandings empty_db = [] \<and> swissPairings empty_db = Inr []"
proof -
  have h: "players empty_db = []"
    by (simp add: empty_db_def)
  from empty_roster [OF h] h show ?thesis
    by simp
qed

text \<open>C7. Every row of the standings has \<open>0 \<le> wins \<le> matches\<close>.\<close>

theorem standings_wins_le_matches:
  "\<forall>r \<in> set (playerStandings d). 0 \<le> row_wins r \<and> row_wins r \<le> row_matches r"
  by (simp add: playerStandings_def set_standings standings_rows_bounds)

theorem standings_wins_le_matches_witness:
  "(2, ''B'', 0, 1) \<in> set (playerStandings scenario_B) \<and>
   0 \<le> row_wins (2, ''B'', 0, 1) \<and> row_wins (2, ''B'', 0, 1) \<le> row_matches (2, ''B'', 0, 1)"
proof -
  have mem: "(2, ''B'', 0, 1) \<in> set (playerStandings scenario_B)"
    by (simp add: standings_scenario_B)
  from bspec [OF standings_wins_le_matches mem] mem show ?thesis
    by simp
qed

text \<open>
  C8. When the player ids are unique and the winner of every match is a registered
  player, which the schema keeps true, the wins of the standings add up to the number
  of matches recorded.
\<close>

theorem sum_wins_eq_matches:
  assumes "distinct (map fst (players d))"
    and "set (map fst (matches d)) \<subseteq> set (map fst (players d))"
  shows "sum_list (map row_wins (playerStandings d)) = int (length (matches d))"
proof -
  have "sum_list (map row_wins (playerStandings d)) = sum_list (map row_wins (standings_rows d))"
    by (simp add: playerStandings_def standings_def sum_list_order_by_wins_desc)
  also have "map row_wins (standings_rows d) =
               map (wins_of (matches d)) (map fst (players d))"
    by (simp add: standings_rows_def row_wins_def)
  also have "sum_list (map (wins_of (matches d)) (map fst (players d))) = int (length (matches d))"
    using assms by (rule sum_wins_of)
  finally show ?thesis .
qed

theorem sum_wins_eq_matches_witness:
  "distinct (map fst (players scenario_B)) \<and>
   set (map fst (matches scenario_B)) \<subseteq> set (map fst (players scenario_B)) \<and>
   sum_list (map row_wins (playerStandings scenario_B)) = 2"
proof -
  have h1: "distinct (map fst (players scenario_B))"
    by (simp add: scenario_B_def)
  have h2: "set (map fst (matches scenario_B)) \<subseteq> set (map fst (players scenario_B))"
    by (simp add: scenario_B_def)
  have "int (length (matches scenario_B)) = 2"
    by (simp add: scenario_B_def)
  with sum_wins_eq_matches [OF h1 h2] h1 h2 show ?thesis
    by simp
qed

section \<open>Registration and deletion\<close>

text \<open>
  C9. \<^verbatim>\<open>registerPlayer\<close> appends one player whose name is \<open>clean name\<close>, the result
  of \<^verbatim>\<open>bleach.clean\<close>, and leaves the matches alone; whenever \<open>clean\<close> changes the
  name, the stored name is not the one passed.
\<close>

theorem registerPlayer_stores_clean_name:
  "players (registerPlayer clean name d) = players d @ [(next_id d, clean name)] \<and>
   matches (registerPlayer clean name d) = matches d \<and>
   (clean name \<noteq> name \<longrightarrow> snd (last (players (registerPlayer clean name d))) \<noteq> name)"
  by (simp add: registerPlayer_def)

text \<open>
  With a function that escapes the angle brackets in the place of \<^verbatim>\<open>bleach.clean\<close>, a
  name with markup is stored escaped.
\<close>

theorem registerPlayer_stores_clean_name_witness:
  "(\<lambda>s. concat (map (\<lambda>c. if c = CHR ''<'' then ''&lt;'' else if c = CHR ''>'' then ''&gt;'' else [c]) s))
      ''<b>Al'' \<noteq> ''<b>Al'' \<and>
   players (registerPlayer
      (\<lambda>s. concat (map (\<lambda>c. if c = CHR ''<'' then ''&lt;'' else if c = CHR ''>'' then ''&gt;'' else [c]) s))
      ''<b>Al'' empty_db) = [(1, ''&lt;b&gt;Al'')] \<and>
   snd (last (players (registerPlayer
      (\<lambda>s. concat (map (\<lambda>c. if c = CHR ''<'' then ''&lt;'' else if c = CHR ''>'' then ''&gt;'' else [c]) s))
      ''<b>Al'' empty_db))) \<noteq> ''<b>Al''"
  using registerPlayer_stores_clean_name
    [of "\<lambda>s. concat (map (\<lambda>c. if c = CHR ''<'' then ''&lt;'' else if c = CHR ''>'' then ''&gt;'' else [c]) s)"
        "''<b>Al''" empty_db]
  by (simp add: empty_db_def)

text \<open>
  C10. \<^verbatim>\<open>deleteMatches\<close> empties the matches and leaves the players as they are:
  \<^verbatim>\<open>countPlayers\<close> returns what it returned before, and the standings list every
  player, in the order of the table, with no win and no match.
\<close>

theorem deleteMatches_keeps_players:
  "countPlayers (deleteMatches d) = countPlayers d \<and>
   players (deleteMatches d) = players d \<and>
   matches (deleteMatches d) = [] \<and>
   playerStandings (deleteMatches d) = map (\<lambda>p. (fst p, snd p, 0, 0)) (players d)"
proof -
  have "standings_rows (deleteMatches d) = map (\<lambda>p. (fst p, snd p, 0, 0)) (players d)"
    by (simp add: standings_rows_def deleteMatches_def wins_of_def matches_of_def)
  then have "playerStandings (deleteMatches d) = map (\<lambda>p. (fst p, snd p, 0, 0)) (players d)"
    by (simp add: playerStandings_def standings_def order_by_wins_desc_no_wins)
  then show ?thesis
    by (simp add: countPlayers_def deleteMatches_def)
qed

theorem deleteMatches_keeps_players_witness:
  "countPlayers (deleteMatches scenario_B) = 4 \<and>
   playerStandings (deleteMatches scenario_B) =
     [(1, ''A'', 0, 0), (2, ''B'', 0, 0), (3, ''C'', 0, 0), (4, ''D'', 0, 0)]"
  using deleteMatches_keeps_players [of scenario_B]
  by (simp add: scenario_B_def countPlayers_def)

end
